theory Spec2Isabelle
  imports Main "HOL-Library.Word"
begin

section \<open>A touch pad as a Bluetooth LE keyboard: \<open>main.py\<close>\<close>

text \<open>
  The program is MicroPython for an ESP32 (\<open>machine.TouchPad\<close>, \<open>micropython.const\<close>,
  \<open>time.ticks_ms\<close>, \<open>bluetooth.BLE\<close>), so the library calls it makes are modelled with
  MicroPython's behaviour:
  \<^item> \<open>struct.pack\<close> does no range check: an integer is stored by its low-order bytes
    (two's complement), so \<open>"B"\<close> keeps the value modulo 256 and \<open>"<h"\<close> the value modulo
    65536, low byte first;
  \<^item> \<open>bytes + str\<close> is allowed and appends the string's UTF-8 bytes, while \<open>len\<close> of a
    \<open>str\<close> counts characters (the program relies on this: it passes the device name as a
    \<open>str\<close>);
  \<^item> \<open>time.ticks_ms\<close> wraps around at \<open>2 ^ 30\<close> (the period on a 32-bit port) and
    \<open>time.ticks_diff\<close> is the signed difference modulo that period.
\<close>

subsection \<open>Bytes, Python values and \<open>struct.pack\<close>\<close>

type_synonym byte = "8 word"

datatype py_error = TypeError

text \<open>The values the \<open>name\<close> argument takes: \<open>None\<close> (its default), a \<open>bytes\<close> object, or a
  \<open>str\<close>, given by its code points.\<close>

datatype pyobj = PyNone | PyBytes "byte list" | PyStr "nat list"

text \<open>UTF-8, the representation MicroPython keeps a \<open>str\<close> in.\<close>

definition utf8_char :: "nat \<Rightarrow> byte list" where
  "utf8_char c =
     (if c < 0x80 then [of_nat c]
      else if c < 0x800 then [of_nat (0xC0 + c div 0x40), of_nat (0x80 + c mod 0x40)]
      else if c < 0x10000 then
        [of_nat (0xE0 + c div 0x1000), of_nat (0x80 + c div 0x40 mod 0x40),
         of_nat (0x80 + c mod 0x40)]
      else
        [of_nat (0xF0 + c div 0x40000), of_nat (0x80 + c div 0x1000 mod 0x40),
         of_nat (0x80 + c div 0x40 mod 0x40), of_nat (0x80 + c mod 0x40)])"

definition utf8 :: "nat list \<Rightarrow> byte list" where
  "utf8 cs = concat (map utf8_char cs)"

text \<open>\<open>len(value)\<close>: \<open>None\<close> has no length.\<close>

fun py_len :: "pyobj \<Rightarrow> py_error + nat" where
  "py_len PyNone = Inl TypeError"
| "py_len (PyBytes bs) = Inr (length bs)"
| "py_len (PyStr cs) = Inr (length cs)"

text \<open>Truth value, as \<open>if name:\<close> tests it.\<close>

fun py_bool :: "pyobj \<Rightarrow> bool" where
  "py_bool PyNone = False"
| "py_bool (PyBytes bs) = (bs \<noteq> [])"
| "py_bool (PyStr cs) = (cs \<noteq> [])"

text \<open>\<open>b + value\<close> for a \<open>bytes\<close> object \<open>b\<close>.\<close>

fun bytes_add :: "byte list \<Rightarrow> pyobj \<Rightarrow> py_error + byte list" where
  "bytes_add b PyNone = Inl TypeError"
| "bytes_add b (PyBytes bs) = Inr (b @ bs)"
| "bytes_add b (PyStr cs) = Inr (b @ utf8 cs)"

definition pack_B :: "int \<Rightarrow> byte list" where
  "pack_B a = [word_of_int a]"

definition pack_BB :: "int \<Rightarrow> int \<Rightarrow> byte list" where
  "pack_BB a b = [word_of_int a, word_of_int b]"

definition pack_8B :: "int \<Rightarrow> int \<Rightarrow> int \<Rightarrow> int \<Rightarrow> int \<Rightarrow> int \<Rightarrow> int \<Rightarrow> int \<Rightarrow> byte list" where
  "pack_8B a b c d e f g h =
     [word_of_int a, word_of_int b, word_of_int c, word_of_int d,
      word_of_int e, word_of_int f, word_of_int g, word_of_int h]"

definition pack_le_h :: "int \<Rightarrow> byte list" where
  "pack_le_h a = [word_of_int a, word_of_int (a div 256)]"

subsection \<open>The advertising payload\<close>

text \<open>
  \<^verbatim>\<open>
  def _append(adv_type, value):
      nonlocal payload
      payload += struct.pack("BB", len(value) + 1, adv_type) + value
  \<close>
  The enclosing function's \<open>payload\<close> is passed in and returned.
\<close>

definition append_field :: "int \<Rightarrow> pyobj \<Rightarrow> byte list \<Rightarrow> py_error + byte list" where
  "append_field adv_type v payload =
     (case py_len v of
        Inl e \<Rightarrow> Inl e
      | Inr n \<Rightarrow>
          (case bytes_add (pack_BB (int n + 1) adv_type) v of
             Inl e \<Rightarrow> Inl e
           | Inr field \<Rightarrow> Inr (payload @ field)))"

definition advertising_payload :: "bool \<Rightarrow> bool \<Rightarrow> pyobj \<Rightarrow> int \<Rightarrow> py_error + byte list" where
  "advertising_payload limited_disc br_edr name appearance =
     (case append_field 0x01
             (PyBytes (pack_B ((if limited_disc then 0x02 else 0x06) + (if br_edr then 0x00 else 0x04))))
             [] of
        Inl e \<Rightarrow> Inl e
      | Inr p1 \<Rightarrow>
          (case (if py_bool name then append_field 0x09 name p1 else Inr p1) of
             Inl e \<Rightarrow> Inl e
           | Inr p2 \<Rightarrow>
               (case (if appearance \<noteq> 0 then append_field 0x19 (PyBytes (pack_le_h appearance)) p2
                      else Inr p2) of
                  Inl e \<Rightarrow> Inl e
                | Inr p3 \<Rightarrow> append_field 0x03 (PyBytes [0x12, 0x18]) p3)))"

text \<open>
  The format the payload is meant to have, read back: a sequence of fields
  \<open>[length][type][value...]\<close>, where the length byte counts the type byte and the value
  bytes. \<open>ad_fields\<close> splits a byte sequence into its (type, value) pairs, and fails on a
  length byte of zero or one that runs past the end.
\<close>

fun ad_fields :: "byte list \<Rightarrow> (byte \<times> byte list) list option" where
  "ad_fields [] = Some []"
| "ad_fields (l # rest) =
     (if l = 0 \<or> length rest < unat l then None
      else (case ad_fields (drop (unat l) rest) of
              None \<Rightarrow> None
            | Some fs \<Rightarrow> Some ((hd rest, tl (take (unat l) rest)) # fs)))"

text \<open>The bytes one call of \<open>_append\<close> adds for a value of \<open>n\<close> bytes whose \<open>len\<close> is
  \<open>n\<close> as well.\<close>

definition field_bytes :: "int \<Rightarrow> byte list \<Rightarrow> byte list" where
  "field_bytes adv_type v = pack_BB (int (length v) + 1) adv_type @ v"

text \<open>The bytes a name contributes, and the names whose length byte is exact: at most 254
  bytes, and for a \<open>str\<close> only ASCII characters (one byte each).\<close>

fun name_bytes :: "pyobj \<Rightarrow> byte list" where
  "name_bytes PyNone = []"
| "name_bytes (PyBytes bs) = bs"
| "name_bytes (PyStr cs) = utf8 cs"

fun name_fits :: "pyobj \<Rightarrow> bool" where
  "name_fits PyNone = True"
| "name_fits (PyBytes bs) = (length bs \<le> 254)"
| "name_fits (PyStr cs) = (length cs \<le> 254 \<and> list_all (\<lambda>c. c < 0x80) cs)"

definition flags_byte :: "bool \<Rightarrow> bool \<Rightarrow> byte" where
  "flags_byte limited_disc br_edr =
     (if limited_disc then 0x02 else 0x06) + (if br_edr then 0x00 else 0x04)"

text \<open>The fields the payload is specified to consist of, in order.\<close>

definition expected_fields :: "bool \<Rightarrow> bool \<Rightarrow> pyobj \<Rightarrow> int \<Rightarrow> (byte \<times> byte list) list" where
  "expected_fields limited_disc br_edr name appearance =
     [(0x01, [flags_byte limited_disc br_edr])]
     @ (if name_bytes name \<noteq> [] then [(0x09, name_bytes name)] else [])
     @ (if appearance \<noteq> 0
        then [(0x19, [word_of_int (appearance mod 256), word_of_int (appearance div 256 mod 256)])]
        else [])
     @ [(0x03, [0x12, 0x18])]"

definition payload_as_specified :: "bool \<Rightarrow> bool \<Rightarrow> pyobj \<Rightarrow> int \<Rightarrow> bool" where
  "payload_as_specified limited_disc br_edr name appearance =
     (case advertising_payload limited_disc br_edr name appearance of
        Inl e \<Rightarrow> False
      | Inr p \<Rightarrow> ad_fields p = Some (expected_fields limited_disc br_edr name appearance))"

subsection \<open>Configuration and constants\<close>

definition TOUCH_THRESHOLD :: int where
  "TOUCH_THRESHOLD = 800"

definition DEBOUNCE_MS :: int where
  "DEBOUNCE_MS = 300"

definition KEY_HOLD_TIME_MS :: nat where
  "KEY_HOLD_TIME_MS = 75"

definition IRQ_CENTRAL_CONNECT :: int where
  "IRQ_CENTRAL_CONNECT = 1"

definition IRQ_CENTRAL_DISCONNECT :: int where
  "IRQ_CENTRAL_DISCONNECT = 2"

definition ADV_APPEARANCE_KEYBOARD :: int where
  "ADV_APPEARANCE_KEYBOARD = 961"

definition KEY_SPACE :: int where
  "KEY_SPACE = 0x2C"

definition HID_REPORT_DESC :: "byte list" where
  "HID_REPORT_DESC =
     [0x05, 0x01, 0x09, 0x06, 0xA1, 0x01, 0x05, 0x07, 0x19, 0xE0, 0x29, 0xE7,
      0x15, 0x00, 0x25, 0x01, 0x75, 0x01, 0x95, 0x08, 0x81, 0x02, 0x95, 0x01,
      0x75, 0x08, 0x81, 0x01, 0x95, 0x06, 0x75, 0x08, 0x15, 0x00, 0x25, 0x65,
      0x05, 0x07, 0x19, 0x00, 0x29, 0x65, 0x81, 0x00, 0xC0]"

subsection \<open>What the program does to the outside\<close>

text \<open>
  The radio stack, the indicator LED and the clock are outside the program. Each call to
  them is recorded, in program order, as an effect. \<open>CallSendKey\<close> marks the call
  \<open>kb.send_key(...)\<close> that \<open>main\<close> makes, whatever the keyboard then does. Console output
  and the calls \<open>active(True)\<close>, \<open>irq(...)\<close> and \<open>gatts_register_services(...)\<close> are not
  recorded; the five value handles the registration returns are a parameter.
\<close>

datatype effect =
    GattsWrite nat "byte list"
  | GapAdvertise nat "byte list"
  | GattsNotify int nat "byte list"
  | SleepMs nat
  | LedValue nat
  | CallSendKey int

text \<open>The value a characteristic holds after a sequence of effects: the data of the last
  \<open>gatts_write\<close> to its handle. (A notification with explicit data leaves the stored value
  as it is.)\<close>

fun gatts_store :: "(nat \<rightharpoonup> byte list) \<Rightarrow> effect \<Rightarrow> (nat \<rightharpoonup> byte list)" where
  "gatts_store db (GattsWrite h v) = db(h \<mapsto> v)"
| "gatts_store db _ = db"

definition gatts_db :: "effect list \<Rightarrow> (nat \<rightharpoonup> byte list)" where
  "gatts_db es = foldl gatts_store Map.empty es"

text \<open>Effects among which there is no \<open>gatts_write\<close>.\<close>

fun is_write :: "effect \<Rightarrow> bool" where
  "is_write (GattsWrite h v) = True"
| "is_write _ = False"

definition writes_nothing :: "effect list \<Rightarrow> bool" where
  "writes_nothing es = list_all (\<lambda>e. \<not> is_write e) es"

subsection \<open>\<open>class BLEKeyboard\<close>\<close>

record keyboard =
  h_info :: nat
  h_rep_map :: nat
  h_rep :: nat
  h_proto :: nat
  h_ctrl :: nat
  conn_handle :: "int option"
  payload :: "byte list"

text \<open>\<open>_advertise\<close>.\<close>

definition advertise :: "keyboard \<Rightarrow> effect list" where
  "advertise kb = [GapAdvertise 500000 (payload kb)]"

text \<open>
  \<open>__init__\<close>, given the handles \<open>gatts_register_services\<close> returned. The five
  \<open>gatts_write\<close> calls come before the payload is built, so they are among the effects
  whether or not \<open>advertising_payload\<close> raises.
\<close>

definition init :: "nat \<times> nat \<times> nat \<times> nat \<times> nat \<Rightarrow> pyobj \<Rightarrow> (py_error + keyboard) \<times> effect list" where
  "init handles name =
     (case handles of (hi, hm, hr, hp, hc) \<Rightarrow>
        (let writes =
               [GattsWrite hi [0x11, 0x01, 0x00, 0x02],
                GattsWrite hm HID_REPORT_DESC,
                GattsWrite hp [0x01],
                GattsWrite hr [0x00, 0x00, 0x00, 0x00, 0x00, 0x00, 0x00, 0x00],
                GattsWrite hc [0x00]]
         in (case advertising_payload False False name ADV_APPEARANCE_KEYBOARD of
               Inl e \<Rightarrow> (Inl e, writes)
             | Inr p \<Rightarrow>
                 (let kb = \<lparr>h_info = hi, h_rep_map = hm, h_rep = hr, h_proto = hp, h_ctrl = hc,
                             conn_handle = None, payload = p\<rparr>
                  in (Inr kb, writes @ advertise kb)))))"

text \<open>\<open>_irq\<close>: \<open>data\<close> is the triple (connection handle, address type, address) the stack
  passes with a connect or disconnect event.\<close>

definition irq :: "keyboard \<Rightarrow> int \<Rightarrow> int \<times> int \<times> byte list \<Rightarrow> keyboard \<times> effect list" where
  "irq kb event data =
     (if event = IRQ_CENTRAL_CONNECT then
        (case data of (h, addr_type, addr) \<Rightarrow> (kb\<lparr>conn_handle := Some h\<rparr>, []))
      else if event = IRQ_CENTRAL_DISCONNECT then
        (let kb' = kb\<lparr>conn_handle := None\<rparr> in (kb', advertise kb'))
      else (kb, []))"

text \<open>
  The one failure the program handles is an \<open>OSError\<close> from the sensor or the radio stack
  inside the loop of \<open>main\<close>. Whether a \<open>gatts_notify\<close> call returns or raises is the
  environment's choice, passed in as \<open>ok\<close>.
\<close>

datatype fault = OSError

definition gatts_notify :: "bool \<Rightarrow> int \<Rightarrow> nat \<Rightarrow> byte list \<Rightarrow> (fault + unit) \<times> effect list" where
  "gatts_notify ok conn h data =
     (if ok then (Inr (), [GattsNotify conn h data]) else (Inl OSError, []))"

text \<open>
  \<open>send_key\<close>. The test \<open>not self._conn_handle\<close> is true for \<open>None\<close> and for the handle
  \<open>0\<close>; in both cases the method returns at once.
\<close>

definition send_key :: "keyboard \<Rightarrow> int \<Rightarrow> bool \<Rightarrow> bool \<Rightarrow> (fault + unit) \<times> effect list" where
  "send_key kb key_code ok1 ok2 =
     (case conn_handle kb of
        None \<Rightarrow> (Inr (), [])
      | Some h \<Rightarrow>
          (if h = 0 then (Inr (), [])
           else
             (case gatts_notify ok1 h (h_rep kb) (pack_8B 0 0 key_code 0 0 0 0 0) of
                (Inl e, es1) \<Rightarrow> (Inl e, es1)
              | (Inr u, es1) \<Rightarrow>
                  (case gatts_notify ok2 h (h_rep kb) (pack_8B 0 0 0 0 0 0 0 0) of
                     (Inl e, es2) \<Rightarrow> (Inl e, es1 @ [SleepMs KEY_HOLD_TIME_MS] @ es2)
                   | (Inr u', es2) \<Rightarrow> (Inr (), es1 @ [SleepMs KEY_HOLD_TIME_MS] @ es2)))))"

text \<open>What happens to a keyboard object over its life: interrupts from the stack and
  \<open>send_key\<close> calls from the loop, in any order.\<close>

datatype kb_event = Irq int "int \<times> int \<times> byte list" | SendKey int bool bool

fun kb_step :: "keyboard \<Rightarrow> kb_event \<Rightarrow> keyboard" where
  "kb_step kb (Irq event data) = fst (irq kb event data)"
| "kb_step kb (SendKey key_code ok1 ok2) = kb"

definition kb_run :: "keyboard \<Rightarrow> kb_event list \<Rightarrow> keyboard" where
  "kb_run kb evs = foldl kb_step kb evs"

subsection \<open>The tick counter\<close>

text \<open>
  \<open>time.ticks_ms()\<close> is the number of milliseconds since the counter's epoch, modulo
  \<open>TICKS_PERIOD\<close>; \<open>time.ticks_diff(end, start)\<close> is the difference modulo the period, taken
  in \<open>[-TICKS_PERIOD/2, TICKS_PERIOD/2)\<close>.
\<close>

definition TICKS_PERIOD :: int where
  "TICKS_PERIOD = 2 ^ 30"

definition ticks_ms :: "nat \<Rightarrow> int" where
  "ticks_ms t = int t mod TICKS_PERIOD"

definition ticks_diff :: "int \<Rightarrow> int \<Rightarrow> int" where
  "ticks_diff e s = (e - s + TICKS_PERIOD div 2) mod TICKS_PERIOD - TICKS_PERIOD div 2"

subsection \<open>The sampling loop of \<open>main\<close>\<close>

text \<open>
  What one pass through the loop meets: the keyboard object as the interrupt handler has
  left it, the outcome of \<open>touch.read()\<close>, the time in milliseconds since the tick epoch,
  and whether the two notifications of a \<open>send_key\<close> would go through.
\<close>

record poll =
  kbd :: keyboard
  reading :: "fault + int"
  clock :: nat
  notify1_ok :: bool
  notify2_ok :: bool

text \<open>The body of the \<open>try\<close>: the new \<open>last_press_time\<close> when it runs to its end, the fault
  when a call raises.\<close>

definition try_body :: "int \<Rightarrow> poll \<Rightarrow> (fault + int) \<times> effect list" where
  "try_body last_press_time p =
     (case reading p of
        Inl e \<Rightarrow> (Inl e, [])
      | Inr val \<Rightarrow>
          (if val < TOUCH_THRESHOLD then
             (let now = ticks_ms (clock p) in
              if ticks_diff now last_press_time > DEBOUNCE_MS then
                (case send_key (kbd p) KEY_SPACE (notify1_ok p) (notify2_ok p) of
                   (Inl e, es) \<Rightarrow> (Inl e, [LedValue 1, CallSendKey KEY_SPACE] @ es)
                 | (Inr u, es) \<Rightarrow>
                     (Inr now, [LedValue 1, CallSendKey KEY_SPACE] @ es @ [LedValue 0, SleepMs 20]))
              else (Inr last_press_time, [SleepMs 20]))
           else (Inr last_press_time, [SleepMs 20])))"

text \<open>One pass, with the handler: \<open>last_press_time\<close> afterwards, the \<open>OSError\<close> caught if
  any, and the effects.\<close>

record iteration =
  last_after :: int
  caught :: "fault option"
  effects :: "effect list"

definition main_iter :: "int \<Rightarrow> poll \<Rightarrow> iteration" where
  "main_iter last_press_time p =
     (case try_body last_press_time p of
        (Inr t, es) \<Rightarrow> \<lparr>last_after = t, caught = None, effects = es\<rparr>
      | (Inl e, es) \<Rightarrow>
          \<lparr>last_after = last_press_time, caught = Some e, effects = es @ [SleepMs 1000]\<rparr>)"

fun main_loop :: "int \<Rightarrow> poll list \<Rightarrow> iteration list" where
  "main_loop last_press_time [] = []"
| "main_loop last_press_time (p # ps) =
     (let it = main_iter last_press_time p in it # main_loop (last_after it) ps)"

text \<open>\<open>main\<close> enters the loop with \<open>last_press_time = 0\<close>.\<close>

definition main :: "poll list \<Rightarrow> iteration list" where
  "main ps = main_loop 0 ps"

text \<open>A key event is a call of \<open>send_key\<close>; it is accepted when the call returned and the
  loop recorded its time.\<close>

definition key_event :: "iteration \<Rightarrow> bool" where
  "key_event it = (CallSendKey KEY_SPACE \<in> set (effects it))"

definition accepted :: "iteration \<Rightarrow> bool" where
  "accepted it = (key_event it \<and> caught it = None)"

definition touched :: "poll \<Rightarrow> bool" where
  "touched p = (case reading p of Inl e \<Rightarrow> False | Inr val \<Rightarrow> val < TOUCH_THRESHOLD)"

text \<open>
  The time a pass spends asleep, and the timelines on which the clock has advanced by at
  least that much when the next pass runs.
\<close>

fun sleep_of :: "effect \<Rightarrow> nat" where
  "sleep_of (SleepMs n) = n"
| "sleep_of _ = 0"

definition slept :: "effect list \<Rightarrow> nat" where
  "slept es = sum_list (map sleep_of es)"

fun paced :: "int \<Rightarrow> poll list \<Rightarrow> bool" where
  "paced last_press_time (p # q # ps) =
     (clock p + slept (effects (main_iter last_press_time p)) \<le> clock q \<and>
      paced (last_after (main_iter last_press_time p)) (q # ps))"
| "paced last_press_time ps = True"

text \<open>A sustained touch is a non-empty run of consecutive polls that all read below the
  threshold; such a run, met with \<open>last_press_time\<close> as given, has one key event at its
  entry when its first pass calls \<open>send_key\<close> and no later pass does.\<close>

definition sustained_touch :: "poll list \<Rightarrow> bool" where
  "sustained_touch run = (run \<noteq> [] \<and> list_all touched run)"

definition one_event_at_entry :: "int \<Rightarrow> poll list \<Rightarrow> bool" where
  "one_event_at_entry last_press_time run =
     (map key_event (main_loop last_press_time run) = True # replicate (length run - 1) False)"

subsection \<open>Concrete values\<close>

text \<open>The name \<open>BLEKeyboard()\<close> is created with, a keyboard object with handles as a stack
  might number them, and a pass of the loop in which no call fails.\<close>

definition default_name :: pyobj where
  "default_name = PyStr (map of_char ''ESP Space'')"

definition some_keyboard :: "int option \<Rightarrow> keyboard" where
  "some_keyboard h =
     \<lparr>h_info = 16, h_rep_map = 18, h_rep = 20, h_proto = 23, h_ctrl = 25, conn_handle = h,
      payload = [2, 1, 0x0A, 10, 9, 0x45, 0x53, 0x50, 0x20, 0x53, 0x70, 0x61, 0x63, 0x65,
                 3, 0x19, 0xC1, 0x03, 3, 3, 0x12, 0x18]\<rparr>"

definition sample :: "keyboard \<Rightarrow> int \<Rightarrow> nat \<Rightarrow> poll" where
  "sample kb val t =
     \<lparr>kbd = kb, reading = Inr val, clock = t, notify1_ok = True, notify2_ok = True\<rparr>"

text \<open>Two touches 380 ms apart, with a reading in between that is debounced.\<close>

definition two_touches :: "poll list" where
  "two_touches =
     [sample (some_keyboard (Some 64)) 900 1000, sample (some_keyboard (Some 64)) 750 1020,
      sample (some_keyboard (Some 64)) 700 1115, sample (some_keyboard (Some 64)) 700 1400]"

text \<open>A finger held on the pad for \<open>n\<close> polls of 20 ms, from one second after the tick
  epoch, with no host connected.\<close>

definition held_touch :: "nat \<Rightarrow> poll list" where
  "held_touch n = map (\<lambda>i. sample (some_keyboard None) 700 (1000 + 20 * i)) [0..<n]"

text \<open>The readings 900, 900, 750, 900 taken every 20 ms from time \<open>t0\<close> on.\<close>

definition scenario :: "nat \<Rightarrow> poll list" where
  "scenario t0 =
     [sample (some_keyboard None) 900 t0, sample (some_keyboard None) 900 (t0 + 20),
      sample (some_keyboard None) 750 (t0 + 40), sample (some_keyboard None) 900 (t0 + 60)]"

section \<open>The advertising payload builder\<close>

subsection \<open>One field\<close>

lemma unat_len_byte: "n \<le> 254 \<Longrightarrow> unat (word_of_int (int n + 1) :: byte) = Suc n"
proof -
  assume n: "n \<le> 254"
  have "int n + 1 = int (Suc n)" by simp
  then have "(word_of_int (int n + 1) :: byte) = of_nat (Suc n)"
    by (simp only: word_of_int_nat[symmetric] of_int_of_nat_eq)
  moreover have "unat (of_nat (Suc n) :: byte) = Suc n"
    using n by (simp only: unat_of_nat) simp
  ultimately show ?thesis by (simp only:)
qed

lemma ad_fields_field:
  assumes "length v \<le> 254"
  shows "ad_fields (field_bytes t v @ rest)
         = map_option ((#) (word_of_int t, v)) (ad_fields rest)"
  using assms unat_len_byte[of "length v"]
  by (auto simp: field_bytes_def pack_BB_def split: option.splits)

lemma ad_fields_last:
  "length v \<le> 254 \<Longrightarrow> ad_fields (field_bytes t v) = Some [(word_of_int t, v)]"
  using ad_fields_field[of v t "[]"] by simp

lemma utf8_ascii: "list_all (\<lambda>c. c < 0x80) cs \<Longrightarrow> utf8 cs = map of_nat cs"
  by (induction cs) (auto simp: utf8_def utf8_char_def)

lemma name_fits_len:
  "name_fits name \<Longrightarrow> py_bool name \<Longrightarrow>
     py_len name = Inr (length (name_bytes name)) \<and> length (name_bytes name) \<le> 254
     \<and> name_bytes name \<noteq> []"
  by (cases name) (auto simp: utf8_ascii)

lemma name_bytes_empty: "\<not> py_bool name \<Longrightarrow> name_bytes name = []"
  by (cases name) (auto simp: utf8_def)

lemma bytes_add_name: "py_bool name \<Longrightarrow> bytes_add b name = Inr (b @ name_bytes name)"
  by (cases name) auto

lemma append_field_bytes: "append_field t (PyBytes v) p = Inr (p @ field_bytes t v)"
  by (simp add: append_field_def field_bytes_def)

lemma append_field_name:
  "name_fits name \<Longrightarrow> py_bool name \<Longrightarrow>
   append_field t name p = Inr (p @ field_bytes t (name_bytes name))"
  using name_fits_len[of name] by (simp add: append_field_def bytes_add_name field_bytes_def)

lemma pack_le_h_bytes:
  "pack_le_h a = [word_of_int (a mod 256), word_of_int (a div 256 mod 256)]"
  by (simp add: pack_le_h_def word_of_int_eq_iff take_bit_eq_mod)

subsection \<open>The whole payload\<close>

lemma advertising_payload_eq:
  assumes "name_fits name"
  shows "advertising_payload ld be name app =
     Inr (field_bytes 0x01 [flags_byte ld be]
          @ (if py_bool name then field_bytes 0x09 (name_bytes name) else [])
          @ (if app \<noteq> 0 then field_bytes 0x19 (pack_le_h app) else [])
          @ field_bytes 0x03 [0x12, 0x18])"
  using assms
  by (simp add: advertising_payload_def append_field_bytes append_field_name pack_B_def
      flags_byte_def)

text \<open>\<open>_append\<close> is only ever reached with a value that has a length: the \<open>if name:\<close> test
  keeps \<open>None\<close> away from it.\<close>

lemma advertising_payload_returns:
  "\<exists>p. advertising_payload limited_disc br_edr name appearance = Inr p"
  by (cases name) (simp_all add: advertising_payload_def append_field_def)

text \<open>
  C8. The payload builder raises nothing: for every choice of the two flags, every name
  (\<open>None\<close>, \<open>bytes\<close> or \<open>str\<close>) and every appearance code it returns a byte sequence. It is
  a function of its four arguments alone (the \<open>payload\<close> it appends to is created anew
  in each call, and nothing else is read or written), so equal arguments give equal results.
\<close>

theorem advertising_payload_never_raises:
  "\<exists>p. advertising_payload limited_disc br_edr name appearance = Inr p"
proof -
  obtain p1 where p1:
    "append_field 0x01
       (PyBytes (pack_B ((if limited_disc then 0x02 else 0x06) + (if br_edr then 0x00 else 0x04))))
       [] = Inr p1"
    by (simp add: append_field_def)
  have "\<exists>p2. (if py_bool name then append_field 0x09 name p1 else Inr p1) = Inr p2"
    by (cases name) (simp_all add: append_field_def)
  then obtain p2 where p2: "(if py_bool name then append_field 0x09 name p1 else Inr p1) = Inr p2"
    by blast
  have "\<exists>p3. (if appearance \<noteq> 0 then append_field 0x19 (PyBytes (pack_le_h appearance)) p2
                else Inr p2) = Inr p3"
    by (simp add: append_field_def)
  then obtain p3 where p3:
    "(if appearance \<noteq> 0 then append_field 0x19 (PyBytes (pack_le_h appearance)) p2 else Inr p2)
       = Inr p3"
    by blast
  obtain p4 where p4: "append_field 0x03 (PyBytes [0x12, 0x18]) p3 = Inr p4"
    by (simp add: append_field_def)
  show ?thesis
    unfolding advertising_payload_def by (simp only: p1 p2 p3 p4 sum.case) blast
qed

text \<open>
  C4, amended. For every appearance code and every name that is \<open>None\<close>, a \<open>bytes\<close> object of
  at most 254 bytes or a \<open>str\<close> of at most 254 ASCII characters, the payload reads back,
  field by field with each length byte equal to one plus the number of value bytes, as: a
  flags field; a complete-local-name field (type \<open>0x09\<close>) exactly when the name is
  non-empty; an appearance field (type \<open>0x19\<close>) holding the low 16 bits of the code, low
  byte first, exactly when the code is nonzero; and last a service-UUID field (type
  \<open>0x03\<close>) with value bytes \<open>12 18\<close>.
\<close>

theorem advertising_payload_fields:
  assumes "name_fits name"
  shows "payload_as_specified limited_disc br_edr name appearance"
proof -
  have len: "py_bool name \<Longrightarrow> length (name_bytes name) \<le> 254 \<and> name_bytes name \<noteq> []"
    using assms name_fits_len by blast
  have l2: "length (pack_le_h appearance) \<le> 254"
    by (simp add: pack_le_h_def)
  have l1: "length [flags_byte limited_disc br_edr] \<le> 254" "length [0x12, 0x18 :: byte] \<le> 254"
    by simp_all
  show ?thesis
    unfolding payload_as_specified_def advertising_payload_eq[OF assms] expected_fields_def
    using len
    by (simp add: ad_fields_field[OF l2] ad_fields_field[OF l1(1)] ad_fields_last[OF l1(2)]
        ad_fields_field name_bytes_empty pack_le_h_bytes[symmetric]
        del: ad_fields.simps)
qed

text \<open>The payload the program advertises: name \<open>"ESP Space"\<close>, appearance 961.\<close>

theorem advertising_payload_fields_witness:
  "name_fits default_name \<and>
   advertising_payload False False default_name ADV_APPEARANCE_KEYBOARD
     = Inr [2, 1, 0x0A, 10, 9, 0x45, 0x53, 0x50, 0x20, 0x53, 0x70, 0x61, 0x63, 0x65,
            3, 0x19, 0xC1, 0x03, 3, 3, 0x12, 0x18] \<and>
   payload_as_specified False False default_name ADV_APPEARANCE_KEYBOARD"
  using advertising_payload_fields[of default_name False False ADV_APPEARANCE_KEYBOARD]
  by (simp add: default_name_def ADV_APPEARANCE_KEYBOARD_def advertising_payload_def
      append_field_def pack_BB_def pack_B_def pack_le_h_def utf8_def utf8_char_def)

text \<open>
  With a name of 255 bytes, \<open>len(value) + 1\<close> is 256 and the length byte packed for the
  name field is 0: the payload no longer reads back as the four fields. Nor does it with
  the one-character name \<open>"\<close>e-acute\<open>"\<close> given as a \<open>str\<close>: the length byte counts one
  character, the value is the two bytes of its UTF-8 encoding.
\<close>

theorem long_name_counterexample:
  "advertising_payload False False (PyBytes (replicate 255 0x41)) 961
     = Inr ([2, 1, 0x0A, 0, 9] @ replicate 255 0x41 @ [3, 0x19, 0xC1, 0x03, 3, 3, 0x12, 0x18]) \<and>
   \<not> payload_as_specified False False (PyBytes (replicate 255 0x41)) 961 \<and>
   advertising_payload False False (PyStr [0xE9]) 961
     = Inr [2, 1, 0x0A, 2, 9, 0xC3, 0xA9, 3, 0x19, 0xC1, 0x03, 3, 3, 0x12, 0x18] \<and>
   \<not> payload_as_specified False False (PyStr [0xE9]) 961"
  by code_simp

section \<open>The sampling loop\<close>

subsection \<open>Elapsed time and the tick counter\<close>

lemma mod_diff_shift: "((a::int) mod P - b mod P + h) mod P = (a - b + h) mod P"
proof -
  have "(a mod P - b mod P + h) mod P = ((a mod P - b mod P) mod P + h) mod P"
    by (simp only: mod_add_left_eq)
  also have "(a mod P - b mod P) mod P = (a - b) mod P"
    by (simp only: mod_diff_eq)
  also have "((a - b) mod P + h) mod P = (a - b + h) mod P"
    by (simp only: mod_add_left_eq)
  finally show ?thesis .
qed

text \<open>Over less than half a period, \<open>ticks_diff\<close> of two readings is the time that passed.\<close>

lemma ticks_diff_exact:
  assumes "t1 \<le> t2" and "int t2 - int t1 < 2 ^ 29"
  shows "ticks_diff (ticks_ms t2) (ticks_ms t1) = int t2 - int t1"
proof -
  have "(int t2 mod TICKS_PERIOD - int t1 mod TICKS_PERIOD + TICKS_PERIOD div 2) mod TICKS_PERIOD
        = (int t2 - int t1 + TICKS_PERIOD div 2) mod TICKS_PERIOD"
    by (rule mod_diff_shift)
  also have "\<dots> = int t2 - int t1 + TICKS_PERIOD div 2"
    using assms by (simp add: TICKS_PERIOD_def)
  finally show ?thesis
    by (simp add: ticks_diff_def ticks_ms_def)
qed

lemma ticks_diff_elapsed:
  assumes "t1 \<le> t2" and "ticks_diff (ticks_ms t2) (ticks_ms t1) > DEBOUNCE_MS"
  shows "int t1 + DEBOUNCE_MS < int t2"
proof (rule ccontr)
  assume "\<not> int t1 + DEBOUNCE_MS < int t2"
  then have "int t2 - int t1 \<le> 300"
    by (simp add: DEBOUNCE_MS_def)
  then have "ticks_diff (ticks_ms t2) (ticks_ms t1) = int t2 - int t1" "int t2 - int t1 \<le> DEBOUNCE_MS"
    using assms(1) by (simp_all add: ticks_diff_exact DEBOUNCE_MS_def)
  with assms(2) show False by simp
qed

lemma ticks_ms_epoch: "ticks_ms 0 = 0"
  by (simp add: ticks_ms_def)

lemma ticks_diff_near_epoch:
  assumes "int t \<le> DEBOUNCE_MS"
  shows "ticks_diff (ticks_ms t) 0 = int t"
  using assms ticks_diff_exact[of 0 t] by (simp add: ticks_ms_epoch DEBOUNCE_MS_def)

subsection \<open>One pass\<close>

lemma send_key_no_call: "CallSendKey c \<notin> set (snd (send_key kb k ok1 ok2))"
  by (simp add: send_key_def gatts_notify_def split: prod.splits sum.splits option.splits)

lemma key_event_iff:
  "key_event (main_iter L p) \<longleftrightarrow>
     touched p \<and> ticks_diff (ticks_ms (clock p)) L > DEBOUNCE_MS"
  using send_key_no_call[of KEY_SPACE "kbd p" KEY_SPACE "notify1_ok p" "notify2_ok p"]
  by (auto simp: key_event_def main_iter_def try_body_def touched_def Let_def
      split: sum.splits prod.splits)

lemma last_after_iter:
  "last_after (main_iter L p) = (if accepted (main_iter L p) then ticks_ms (clock p) else L)"
  using send_key_no_call[of KEY_SPACE "kbd p" KEY_SPACE "notify1_ok p" "notify2_ok p"]
  by (auto simp: accepted_def key_event_def main_iter_def try_body_def Let_def
      split: sum.splits prod.splits)


subsection \<open>Runs of the loop\<close>

lemma main_loop_snoc:
  "main_loop L (xs @ [p]) =
     main_loop L xs @ [main_iter (foldl (\<lambda>l q. last_after (main_iter l q)) L xs) p]"
  by (induction xs arbitrary: L) (simp_all add: Let_def)

lemma unaccepted_keeps_last:
  "\<forall>it \<in> set (main_loop L xs). \<not> accepted it \<Longrightarrow>
     foldl (\<lambda>l q. last_after (main_iter l q)) L xs = L"
proof (induction xs arbitrary: L)
  case Nil
  then show ?case by simp
next
  case (Cons x xs)
  from Cons.prems have na: "\<not> accepted (main_iter L x)"
    and rest: "\<forall>it \<in> set (main_loop (last_after (main_iter L x)) xs). \<not> accepted it"
    by (simp_all add: Let_def)
  from na have keep: "last_after (main_iter L x) = L"
    by (simp add: last_after_iter)
  from Cons.IH[OF rest] keep show ?case by simp
qed

text \<open>The invariant behind the debounce: \<open>last_press_time\<close> is the tick reading of a moment
  \<open>t0\<close> that is not after any poll still to come.\<close>

lemma debounce_gen:
  assumes "sorted (map clock ps)" and "\<forall>p \<in> set ps. t0 \<le> clock p" and "L = ticks_ms t0"
    and "j < length ps" and "key_event (main_loop L ps ! j)"
  shows "touched (ps ! j) \<and> int t0 + DEBOUNCE_MS < int (clock (ps ! j)) \<and>
         (\<forall>i < j. accepted (main_loop L ps ! i) \<longrightarrow>
              int (clock (ps ! i)) + DEBOUNCE_MS < int (clock (ps ! j)))"
  using assms
proof (induction ps arbitrary: L t0 j)
  case Nil
  then show ?case by simp
next
  case (Cons p ps)
  let ?it = "main_iter L p"
  have t0p: "t0 \<le> clock p" using Cons.prems(2) by simp
  show ?case
  proof (cases j)
    case 0
    with Cons.prems(5) have "key_event ?it" by (simp add: Let_def)
    then have "touched p" "ticks_diff (ticks_ms (clock p)) (ticks_ms t0) > DEBOUNCE_MS"
      using Cons.prems(3) by (simp_all add: key_event_iff)
    with t0p 0 show ?thesis by (simp add: ticks_diff_elapsed)
  next
    case (Suc k)
    have k: "k < length ps" using Cons.prems(4) Suc by simp
    have ev: "key_event (main_loop (last_after ?it) ps ! k)"
      using Cons.prems(5) Suc by (simp add: Let_def)
    have sorted: "sorted (map clock ps)" and ge: "\<forall>q \<in> set ps. clock p \<le> clock q"
      using Cons.prems(1) by simp_all
    show ?thesis
    proof (cases "accepted ?it")
      case True
      then have L': "last_after ?it = ticks_ms (clock p)" by (simp add: last_after_iter)
      from Cons.IH[OF sorted ge L' k ev]
      have IH: "touched (ps ! k)" "int (clock p) + DEBOUNCE_MS < int (clock (ps ! k))"
        "\<forall>i < k. accepted (main_loop (last_after ?it) ps ! i) \<longrightarrow>
              int (clock (ps ! i)) + DEBOUNCE_MS < int (clock (ps ! k))"
        by simp_all
      have "\<forall>i < Suc k. accepted (main_loop L (p # ps) ! i) \<longrightarrow>
              int (clock ((p # ps) ! i)) + DEBOUNCE_MS < int (clock (ps ! k))"
      proof (intro allI impI)
        fix i assume "i < Suc k" "accepted (main_loop L (p # ps) ! i)"
        then show "int (clock ((p # ps) ! i)) + DEBOUNCE_MS < int (clock (ps ! k))"
          using IH(2,3) by (cases i) (simp_all add: Let_def)
      qed
      with IH(1,2) t0p Suc show ?thesis by simp
    next
      case False
      then have L': "last_after ?it = ticks_ms t0"
        using Cons.prems(3) by (simp add: last_after_iter)
      have ge0: "\<forall>q \<in> set ps. t0 \<le> clock q" using Cons.prems(2) by simp
      from Cons.IH[OF sorted ge0 L' k ev]
      have IH: "touched (ps ! k)" "int t0 + DEBOUNCE_MS < int (clock (ps ! k))"
        "\<forall>i < k. accepted (main_loop (last_after ?it) ps ! i) \<longrightarrow>
              int (clock (ps ! i)) + DEBOUNCE_MS < int (clock (ps ! k))"
        by simp_all
      have "\<forall>i < Suc k. accepted (main_loop L (p # ps) ! i) \<longrightarrow>
              int (clock ((p # ps) ! i)) + DEBOUNCE_MS < int (clock (ps ! k))"
      proof (intro allI impI)
        fix i assume "i < Suc k" "accepted (main_loop L (p # ps) ! i)"
        then show "int (clock ((p # ps) ! i)) + DEBOUNCE_MS < int (clock (ps ! k))"
          using IH(3) False by (cases i) (simp_all add: Let_def)
      qed
      with IH(1,2) Suc show ?thesis by simp
    qed
  qed
qed

text \<open>While the polls stay within the debounce window after the accepted one, none of
  them is a key event.\<close>

lemma held_within_window:
  assumes "\<forall>q \<in> set run. clock p \<le> clock q \<and> int (clock q) \<le> int (clock p) + DEBOUNCE_MS"
  shows "map key_event (main_loop (ticks_ms (clock p)) run) = replicate (length run) False"
  using assms
proof (induction run)
  case Nil
  then show ?case by simp
next
  case (Cons q run)
  have q: "clock p \<le> clock q" "int (clock q) - int (clock p) \<le> DEBOUNCE_MS"
    using Cons.prems by simp_all
  then have "ticks_diff (ticks_ms (clock q)) (ticks_ms (clock p)) = int (clock q) - int (clock p)"
    by (intro ticks_diff_exact) (simp_all add: DEBOUNCE_MS_def)
  with q have quiet: "\<not> key_event (main_iter (ticks_ms (clock p)) q)"
    by (simp add: key_event_iff)
  then have "last_after (main_iter (ticks_ms (clock p)) q) = ticks_ms (clock p)"
    by (simp add: last_after_iter accepted_def)
  with quiet Cons show ?case by (simp add: Let_def)
qed

subsection \<open>Threshold and debounce\<close>

text \<open>
  C2. Time does not run backwards, so the polls come with non-decreasing clock values.
  Then, whatever the readings, faults and keyboard states: a pass of the loop calls
  \<open>send_key\<close> only if the value it read is strictly below \<open>TOUCH_THRESHOLD\<close>, and more than
  \<open>DEBOUNCE_MS\<close> milliseconds after every earlier pass whose key event was accepted.
\<close>

theorem key_event_needs_touch_and_debounce:
  assumes "sorted (map clock ps)" and "j < length ps" and "key_event (main ps ! j)"
  shows "(\<exists>val. reading (ps ! j) = Inr val \<and> val < TOUCH_THRESHOLD) \<and>
         (\<forall>i < j. accepted (main ps ! i) \<longrightarrow>
              int (clock (ps ! i)) + DEBOUNCE_MS < int (clock (ps ! j)))"
proof -
  have "touched (ps ! j) \<and> int 0 + DEBOUNCE_MS < int (clock (ps ! j)) \<and>
         (\<forall>i < j. accepted (main_loop 0 ps ! i) \<longrightarrow>
              int (clock (ps ! i)) + DEBOUNCE_MS < int (clock (ps ! j)))"
    using assms by (intro debounce_gen) (simp_all add: main_def ticks_ms_epoch)
  then show ?thesis
    by (auto simp: main_def touched_def split: sum.splits)
qed

theorem key_event_needs_touch_and_debounce_witness:
  "sorted (map clock two_touches) \<and> key_event (main two_touches ! 3) \<and>
   accepted (main two_touches ! 1) \<and>
   (\<exists>val. reading (two_touches ! 3) = Inr val \<and> val < TOUCH_THRESHOLD) \<and>
   int (clock (two_touches ! 1)) + DEBOUNCE_MS < int (clock (two_touches ! 3))"
proof -
  have h1: "sorted (map clock two_touches)" by code_simp
  have h2: "3 < length two_touches" by code_simp
  have h3: "key_event (main two_touches ! 3)" by code_simp
  have acc: "accepted (main two_touches ! 1)" by code_simp
  note c = key_event_needs_touch_and_debounce[OF h1 h2 h3]
  from c have c1: "\<exists>val. reading (two_touches ! 3) = Inr val \<and> val < TOUCH_THRESHOLD"
    by (rule conjunct1)
  from c acc have c2: "int (clock (two_touches ! 1)) + DEBOUNCE_MS < int (clock (two_touches ! 3))"
    by simp
  show ?thesis by (intro conjI h1 h3 acc c1 c2)
qed

text \<open>
  A \<open>send_key\<close> call that raised is not recorded in \<open>last_press_time\<close>, but the handler then
  sleeps for a second. So on a timeline where the clock advances at least by the time
  each pass sleeps, any two key events, accepted or not, are more than \<open>DEBOUNCE_MS\<close>
  milliseconds apart.
\<close>

lemma paced_sorted: "paced L ps \<Longrightarrow> sorted (map clock ps)"
proof (induction L ps rule: paced.induct)
  case (1 L p q ps)
  then have s: "sorted (map clock (q # ps))" and le: "clock p \<le> clock q" by simp_all
  from s le have "\<forall>x \<in> set (q # ps). clock p \<le> clock x"
    by (auto intro: order_trans)
  with s show ?case by simp
qed simp_all

lemma fault_backs_off:
  "key_event (main_iter L p) \<Longrightarrow> \<not> accepted (main_iter L p) \<Longrightarrow>
     1000 \<le> slept (effects (main_iter L p))"
  by (auto simp: accepted_def main_iter_def try_body_def slept_def Let_def
      split: sum.splits prod.splits if_splits)

lemma first_event_then_later:
  assumes "paced L (p # ps)" and "L = ticks_ms t0" and "t0 \<le> clock p"
    and "key_event (main_iter L p)" and "k < length ps"
    and "key_event (main_loop (last_after (main_iter L p)) ps ! k)"
  shows "int (clock p) + DEBOUNCE_MS < int (clock (ps ! k))"
proof (cases "accepted (main_iter L p)")
  case True
  have s: "sorted (map clock (p # ps))" using assms(1) by (rule paced_sorted)
  then have ge: "\<forall>q \<in> set (p # ps). t0 \<le> clock q"
    using assms(3) by (auto intro: order_trans)
  have "key_event (main_loop L (p # ps) ! Suc k)" using assms(6) by (simp add: Let_def)
  from debounce_gen[OF s ge assms(2) _ this] assms(5) True show ?thesis
    by (auto simp: Let_def)
next
  case False
  from assms(5) obtain q qs where ps: "ps = q # qs" by (cases ps) auto
  have "1000 \<le> slept (effects (main_iter L p))"
    using assms(4) False by (rule fault_backs_off)
  with assms(1) ps have far: "clock p + 1000 \<le> clock q" by simp
  have "sorted (map clock (q # qs))" using assms(1) paced_sorted[of L "p # ps"] ps by simp
  then have "clock q \<le> clock (ps ! k)"
    using assms(5) ps by (cases k) auto
  with far show ?thesis by (simp add: DEBOUNCE_MS_def)
qed

lemma key_events_apart_gen:
  assumes "paced L ps" and "L = ticks_ms t0" and "\<forall>p \<in> set ps. t0 \<le> clock p"
    and "i < j" and "j < length ps"
    and "key_event (main_loop L ps ! i)" and "key_event (main_loop L ps ! j)"
  shows "int (clock (ps ! i)) + DEBOUNCE_MS < int (clock (ps ! j))"
  using assms
proof (induction ps arbitrary: L t0 i j)
  case Nil
  then show ?case by simp
next
  case (Cons p ps)
  obtain k where j: "j = Suc k" using Cons.prems(4) by (cases j) auto
  have k: "k < length ps" using Cons.prems(5) j by simp
  have evk: "key_event (main_loop (last_after (main_iter L p)) ps ! k)"
    using Cons.prems(7) j by (simp add: Let_def)
  show ?case
  proof (cases i)
    case 0
    then have "key_event (main_iter L p)" using Cons.prems(6) by (simp add: Let_def)
    from first_event_then_later[OF Cons.prems(1,2) _ this k evk] Cons.prems(3) 0 j
    show ?thesis by simp
  next
    case (Suc i')
    have rest: "paced (last_after (main_iter L p)) ps"
      using Cons.prems(1) by (cases ps) simp_all
    have s: "sorted (map clock (p # ps))" using Cons.prems(1) by (rule paced_sorted)
    have evi: "key_event (main_loop (last_after (main_iter L p)) ps ! i')"
      using Cons.prems(6) Suc by (simp add: Let_def)
    have lt: "i' < k" using Cons.prems(4) Suc j by simp
    show ?thesis
    proof (cases "accepted (main_iter L p)")
      case True
      then have L': "last_after (main_iter L p) = ticks_ms (clock p)"
        by (simp add: last_after_iter)
      have ge: "\<forall>q \<in> set ps. clock p \<le> clock q" using s by simp
      from Cons.IH[OF rest L' ge lt k evi evk] Suc j show ?thesis by simp
    next
      case False
      then have L': "last_after (main_iter L p) = ticks_ms t0"
        using Cons.prems(2) by (simp add: last_after_iter)
      have ge: "\<forall>q \<in> set ps. t0 \<le> clock q" using Cons.prems(3) by simp
      from Cons.IH[OF rest L' ge lt k evi evk] Suc j show ?thesis by simp
    qed
  qed
qed

lemma key_events_apart_when_paced:
  assumes "paced 0 ps" and "i < j" and "j < length ps"
    and "key_event (main ps ! i)" and "key_event (main ps ! j)"
  shows "int (clock (ps ! i)) + DEBOUNCE_MS < int (clock (ps ! j))"
  using assms key_events_apart_gen[of 0 ps 0 i j]
  by (simp add: main_def ticks_ms_epoch)

text \<open>
  C10. \<open>last_press_time\<close> starts at 0, the tick reading of the epoch itself. So as long as
  no key event has been accepted, a pass that runs at most \<open>DEBOUNCE_MS\<close> milliseconds
  after the tick epoch produces no key event, whatever it reads: a touch is dropped.
\<close>

theorem first_touch_near_epoch_suppressed:
  assumes "\<forall>it \<in> set (main pre). \<not> accepted it" and "int (clock p) \<le> DEBOUNCE_MS"
  shows "\<not> key_event (last (main (pre @ [p])))"
proof -
  have "foldl (\<lambda>l q. last_after (main_iter l q)) 0 pre = 0"
    using assms(1) unfolding main_def by (rule unaccepted_keeps_last)
  then have "last (main (pre @ [p])) = main_iter 0 p"
    by (simp add: main_def main_loop_snoc)
  then show ?thesis
    using assms(2) by (simp add: key_event_iff ticks_diff_near_epoch)
qed

theorem first_touch_near_epoch_suppressed_witness:
  "list_all (\<lambda>it. \<not> accepted it) (main (scenario 200)) \<and>
   touched (sample (some_keyboard (Some 64)) 700 290) \<and>
   int (clock (sample (some_keyboard (Some 64)) 700 290)) \<le> DEBOUNCE_MS \<and>
   \<not> key_event (last (main (scenario 200 @ [sample (some_keyboard (Some 64)) 700 290])))"
proof -
  have a: "list_all (\<lambda>it. \<not> accepted it) (main (scenario 200))" by code_simp
  then have h1: "\<forall>it \<in> set (main (scenario 200)). \<not> accepted it"
    by (simp only: list_all_iff)
  have t: "touched (sample (some_keyboard (Some 64)) 700 290)" by code_simp
  have h2: "int (clock (sample (some_keyboard (Some 64)) 700 290)) \<le> DEBOUNCE_MS" by code_simp
  have c: "\<not> key_event (last (main (scenario 200 @ [sample (some_keyboard (Some 64)) 700 290])))"
    using h1 h2 by (rule first_touch_near_epoch_suppressed)
  show ?thesis by (intro conjI a t h2 c)
qed

subsection \<open>The four-reading scenario\<close>




subsection \<open>A touch that is held\<close>

text \<open>
  C3, amended. Take a sustained touch (a run of consecutive polls all reading below the
  threshold) whose first poll passes the debounce test against \<open>last_press_time\<close>, whose
  \<open>send_key\<close> call returns without a fault, and whose later polls all come within
  \<open>DEBOUNCE_MS\<close> milliseconds after the first. The loop produces exactly one key event for
  it, at the entry of the run.
\<close>

theorem one_event_per_touch_within_window:
  assumes "sustained_touch (p # run)"
    and "ticks_diff (ticks_ms (clock p)) last_press_time > DEBOUNCE_MS"
    and "caught (main_iter last_press_time p) = None"
    and "\<forall>q \<in> set run. clock p \<le> clock q \<and> int (clock q) \<le> int (clock p) + DEBOUNCE_MS"
  shows "one_event_at_entry last_press_time (p # run)"
proof -
  have ev: "key_event (main_iter last_press_time p)"
    using assms(1,2) by (simp add: key_event_iff sustained_touch_def)
  with assms(3) have "last_after (main_iter last_press_time p) = ticks_ms (clock p)"
    by (simp add: last_after_iter accepted_def)
  with ev held_within_window[OF assms(4)] show ?thesis
    by (simp add: one_event_at_entry_def Let_def)
qed

theorem one_event_per_touch_within_window_witness:
  "sustained_touch (hd (held_touch 16) # tl (held_touch 16)) \<and>
   length (held_touch 16) = 16 \<and>
   clock (last (held_touch 16)) = clock (hd (held_touch 16)) + 300 \<and>
   ticks_diff (ticks_ms (clock (hd (held_touch 16)))) 0 > DEBOUNCE_MS \<and>
   caught (main_iter 0 (hd (held_touch 16))) = None \<and>
   one_event_at_entry 0 (hd (held_touch 16) # tl (held_touch 16))"
proof -
  have h1: "sustained_touch (hd (held_touch 16) # tl (held_touch 16))" by code_simp
  have n: "length (held_touch 16) = 16" by code_simp
  have l: "clock (last (held_touch 16)) = clock (hd (held_touch 16)) + 300" by code_simp
  have h2: "ticks_diff (ticks_ms (clock (hd (held_touch 16)))) 0 > DEBOUNCE_MS" by code_simp
  have h3: "caught (main_iter 0 (hd (held_touch 16))) = None" by code_simp
  have "list_all (\<lambda>q. clock (hd (held_touch 16)) \<le> clock q \<and>
                      int (clock q) \<le> int (clock (hd (held_touch 16))) + DEBOUNCE_MS)
          (tl (held_touch 16))"
    by code_simp
  then have h4: "\<forall>q \<in> set (tl (held_touch 16)). clock (hd (held_touch 16)) \<le> clock q \<and>
                      int (clock q) \<le> int (clock (hd (held_touch 16))) + DEBOUNCE_MS"
    by (simp only: list_all_iff)
  have c: "one_event_at_entry 0 (hd (held_touch 16) # tl (held_touch 16))"
    using h1 h2 h3 h4 by (rule one_event_per_touch_within_window)
  show ?thesis by (intro conjI h1 n l h2 h3 c)
qed

text \<open>A finger held for 17 polls of 20 ms: the seventeenth poll comes 320 ms after the
  first, the window has elapsed, and \<open>send_key\<close> is called a second time.\<close>

theorem held_touch_repeats_counterexample:
  "sustained_touch (held_touch 17) \<and>
   \<not> one_event_at_entry 0 (held_touch 17) \<and>
   map key_event (main (held_touch 17)) = True # replicate 15 False @ [True]"
  by code_simp

section \<open>The keyboard object\<close>

subsection \<open>Initialisation\<close>

lemma init_ok:
  "\<exists>p. advertising_payload False False name ADV_APPEARANCE_KEYBOARD = Inr p \<and>
       init (hi, hm, hr, hp, hc) name =
         (Inr \<lparr>h_info = hi, h_rep_map = hm, h_rep = hr, h_proto = hp, h_ctrl = hc,
               conn_handle = None, payload = p\<rparr>,
          [GattsWrite hi [0x11, 0x01, 0x00, 0x02],
           GattsWrite hm HID_REPORT_DESC,
           GattsWrite hp [0x01],
           GattsWrite hr [0x00, 0x00, 0x00, 0x00, 0x00, 0x00, 0x00, 0x00],
           GattsWrite hc [0x00],
           GapAdvertise 500000 p])"
proof -
  obtain p where "advertising_payload False False name ADV_APPEARANCE_KEYBOARD = Inr p"
    using advertising_payload_returns by blast
  then show ?thesis by (simp add: init_def advertise_def)
qed

text \<open>The program writes characteristic values in \<open>__init__\<close> and nowhere else.\<close>

lemma gatts_store_other: "\<not> is_write e \<Longrightarrow> gatts_store db e = db"
  by (cases e) simp_all

lemma foldl_writes_nothing: "writes_nothing later \<Longrightarrow> foldl gatts_store db later = db"
  by (induction later arbitrary: db) (simp_all add: writes_nothing_def gatts_store_other)

lemma gatts_db_append: "writes_nothing later \<Longrightarrow> gatts_db (es @ later) = gatts_db es"
  by (simp add: gatts_db_def foldl_writes_nothing)

lemma irq_writes_nothing: "writes_nothing (snd (irq kb event data))"
  by (simp add: irq_def advertise_def writes_nothing_def Let_def split: prod.splits)

lemma send_key_writes_nothing: "writes_nothing (snd (send_key kb key_code ok1 ok2))"
  by (simp add: send_key_def gatts_notify_def writes_nothing_def
      split: prod.splits sum.splits option.splits)

lemma main_iter_writes_nothing: "writes_nothing (effects (main_iter L p))"
  using send_key_writes_nothing[of "kbd p" KEY_SPACE "notify1_ok p" "notify2_ok p"]
  by (auto simp: main_iter_def try_body_def writes_nothing_def Let_def
      split: prod.splits sum.splits)

text \<open>
  C5. The stack hands out five different value handles. After \<open>__init__\<close>, and through
  whatever the program does next short of writing a characteristic (interrupts and passes
  of the loop write none), the characteristics hold: HID Information \<open>11 01 00 02\<close>; Report
  Map the 45-byte report descriptor; Input Report eight zero bytes; Protocol Mode \<open>01\<close>;
  Control Point \<open>00\<close>. The keyboard object keeps the five handles in its fields.
\<close>

theorem initial_characteristic_values:
  assumes "distinct [hi, hm, hr, hp, hc]" and "writes_nothing later"
  shows "gatts_db (snd (init (hi, hm, hr, hp, hc) name) @ later) hi = Some [0x11, 0x01, 0x00, 0x02] \<and>
         gatts_db (snd (init (hi, hm, hr, hp, hc) name) @ later) hm = Some HID_REPORT_DESC \<and>
         length HID_REPORT_DESC = 45 \<and>
         gatts_db (snd (init (hi, hm, hr, hp, hc) name) @ later) hr = Some (replicate 8 0) \<and>
         gatts_db (snd (init (hi, hm, hr, hp, hc) name) @ later) hp = Some [0x01] \<and>
         gatts_db (snd (init (hi, hm, hr, hp, hc) name) @ later) hc = Some [0x00] \<and>
         (\<exists>kb. fst (init (hi, hm, hr, hp, hc) name) = Inr kb \<and>
               [h_info kb, h_rep_map kb, h_rep kb, h_proto kb, h_ctrl kb] = [hi, hm, hr, hp, hc])"
proof -
  obtain p where i: "init (hi, hm, hr, hp, hc) name =
         (Inr \<lparr>h_info = hi, h_rep_map = hm, h_rep = hr, h_proto = hp, h_ctrl = hc,
               conn_handle = None, payload = p\<rparr>,
          [GattsWrite hi [0x11, 0x01, 0x00, 0x02],
           GattsWrite hm HID_REPORT_DESC,
           GattsWrite hp [0x01],
           GattsWrite hr [0x00, 0x00, 0x00, 0x00, 0x00, 0x00, 0x00, 0x00],
           GattsWrite hc [0x00],
           GapAdvertise 500000 p])"
    using init_ok by blast
  have len: "length HID_REPORT_DESC = 45"
    by (simp add: HID_REPORT_DESC_def)
  have r8: "replicate 8 (0::byte) = [0, 0, 0, 0, 0, 0, 0, 0]"
    by (simp add: numeral_eq_Suc)
  have db: "gatts_db (snd (init (hi, hm, hr, hp, hc) name) @ later)
              = gatts_db (snd (init (hi, hm, hr, hp, hc) name))"
    using assms(2) by (rule gatts_db_append)
  show ?thesis
    using assms(1) unfolding db unfolding i by (auto simp: gatts_db_def len r8)
qed

text \<open>Start-up with the default name, then a connect event.\<close>

theorem initial_characteristic_values_witness:
  "distinct [16, 18, 20, 23, 25 :: nat] \<and>
   writes_nothing (snd (irq (some_keyboard None) 1 (64, 0, [1, 2, 3, 4, 5, 6]))) \<and>
   (gatts_db (snd (init (16, 18, 20, 23, 25) default_name)
              @ snd (irq (some_keyboard None) 1 (64, 0, [1, 2, 3, 4, 5, 6]))) 16
      = Some [0x11, 0x01, 0x00, 0x02] \<and>
    gatts_db (snd (init (16, 18, 20, 23, 25) default_name)
              @ snd (irq (some_keyboard None) 1 (64, 0, [1, 2, 3, 4, 5, 6]))) 18
      = Some HID_REPORT_DESC \<and>
    length HID_REPORT_DESC = 45 \<and>
    gatts_db (snd (init (16, 18, 20, 23, 25) default_name)
              @ snd (irq (some_keyboard None) 1 (64, 0, [1, 2, 3, 4, 5, 6]))) 20
      = Some (replicate 8 0) \<and>
    gatts_db (snd (init (16, 18, 20, 23, 25) default_name)
              @ snd (irq (some_keyboard None) 1 (64, 0, [1, 2, 3, 4, 5, 6]))) 23
      = Some [0x01] \<and>
    gatts_db (snd (init (16, 18, 20, 23, 25) default_name)
              @ snd (irq (some_keyboard None) 1 (64, 0, [1, 2, 3, 4, 5, 6]))) 25
      = Some [0x00] \<and>
    (\<exists>kb. fst (init (16, 18, 20, 23, 25) default_name) = Inr kb \<and>
          [h_info kb, h_rep_map kb, h_rep kb, h_proto kb, h_ctrl kb] = [16, 18, 20, 23, 25]))"
proof -
  have d: "distinct [16, 18, 20, 23, 25 :: nat]" by simp
  have w: "writes_nothing (snd (irq (some_keyboard None) 1 (64, 0, [1, 2, 3, 4, 5, 6])))"
    by (rule irq_writes_nothing)
  show ?thesis
    by (intro conjI d w initial_characteristic_values[OF d w])
qed

subsection \<open>Connection events\<close>

lemma kb_step_payload: "payload (kb_step kb ev) = payload kb"
  by (cases ev) (auto simp: irq_def Let_def split: prod.splits)

lemma kb_run_payload: "payload (kb_run kb evs) = payload kb"
  unfolding kb_run_def by (induction evs arbitrary: kb) (simp_all add: kb_step_payload)

text \<open>
  C7. Let \<open>__init__\<close> have returned the keyboard object \<open>kb0\<close>; its payload field is the byte
  sequence \<open>advertising_payload\<close> built, and the one first advertised. After any sequence of
  interrupts and \<open>send_key\<close> calls, a disconnect event sets the stored connection handle
  to \<open>None\<close> and at once calls \<open>gap_advertise\<close> with that same byte sequence, which no
  operation has changed.
\<close>

theorem disconnect_readvertises_startup_payload:
  assumes "init handles name = (Inr kb0, es0)"
  shows "advertising_payload False False name ADV_APPEARANCE_KEYBOARD = Inr (payload kb0) \<and>
         last es0 = GapAdvertise 500000 (payload kb0) \<and>
         (\<forall>evs data.
            conn_handle (fst (irq (kb_run kb0 evs) IRQ_CENTRAL_DISCONNECT data)) = None \<and>
            payload (fst (irq (kb_run kb0 evs) IRQ_CENTRAL_DISCONNECT data)) = payload kb0 \<and>
            snd (irq (kb_run kb0 evs) IRQ_CENTRAL_DISCONNECT data)
              = [GapAdvertise 500000 (payload kb0)])"
proof -
  obtain hi hm hr hp hc where h: "handles = (hi, hm, hr, hp, hc)"
    by (cases handles) auto
  from init_ok[of name hi hm hr hp hc] assms h
  have p: "advertising_payload False False name ADV_APPEARANCE_KEYBOARD = Inr (payload kb0)"
    and es0: "last es0 = GapAdvertise 500000 (payload kb0)"
    by auto
  have "conn_handle (fst (irq (kb_run kb0 evs) IRQ_CENTRAL_DISCONNECT data)) = None \<and>
        payload (fst (irq (kb_run kb0 evs) IRQ_CENTRAL_DISCONNECT data)) = payload kb0 \<and>
        snd (irq (kb_run kb0 evs) IRQ_CENTRAL_DISCONNECT data) = [GapAdvertise 500000 (payload kb0)]"
    for evs data
    using kb_run_payload[of kb0 evs]
    by (simp add: irq_def IRQ_CENTRAL_DISCONNECT_def IRQ_CENTRAL_CONNECT_def Let_def advertise_def)
  with p es0 show ?thesis by blast
qed

theorem disconnect_readvertises_startup_payload_witness:
  "init (16, 18, 20, 23, 25) default_name
     = (Inr (some_keyboard None),
        [GattsWrite 16 [0x11, 0x01, 0x00, 0x02], GattsWrite 18 HID_REPORT_DESC,
         GattsWrite 23 [0x01], GattsWrite 20 [0, 0, 0, 0, 0, 0, 0, 0], GattsWrite 25 [0x00],
         GapAdvertise 500000 (payload (some_keyboard None))]) \<and>
   conn_handle (kb_run (some_keyboard None)
                  [Irq 1 (64, 0, [1, 2, 3, 4, 5, 6]), SendKey 0x2C True True]) = Some 64 \<and>
   conn_handle (fst (irq (kb_run (some_keyboard None)
                            [Irq 1 (64, 0, [1, 2, 3, 4, 5, 6]), SendKey 0x2C True True])
                       IRQ_CENTRAL_DISCONNECT (64, 0, [1, 2, 3, 4, 5, 6]))) = None \<and>
   snd (irq (kb_run (some_keyboard None)
               [Irq 1 (64, 0, [1, 2, 3, 4, 5, 6]), SendKey 0x2C True True])
          IRQ_CENTRAL_DISCONNECT (64, 0, [1, 2, 3, 4, 5, 6]))
     = [GapAdvertise 500000 (payload (some_keyboard None))]"
proof -
  have h: "init (16, 18, 20, 23, 25) default_name
     = (Inr (some_keyboard None),
        [GattsWrite 16 [0x11, 0x01, 0x00, 0x02], GattsWrite 18 HID_REPORT_DESC,
         GattsWrite 23 [0x01], GattsWrite 20 [0, 0, 0, 0, 0, 0, 0, 0], GattsWrite 25 [0x00],
         GapAdvertise 500000 (payload (some_keyboard None))])"
    by (simp add: init_def default_name_def some_keyboard_def advertise_def
        ADV_APPEARANCE_KEYBOARD_def advertising_payload_def append_field_def pack_BB_def
        pack_B_def pack_le_h_def utf8_def utf8_char_def)
  have c: "conn_handle (kb_run (some_keyboard None)
                  [Irq 1 (64, 0, [1, 2, 3, 4, 5, 6]), SendKey 0x2C True True]) = Some 64"
    by (simp add: kb_run_def irq_def IRQ_CENTRAL_CONNECT_def)
  note t = disconnect_readvertises_startup_payload[OF h]
  from t have a: "\<forall>evs data.
            conn_handle (fst (irq (kb_run (some_keyboard None) evs) IRQ_CENTRAL_DISCONNECT data)) = None \<and>
            payload (fst (irq (kb_run (some_keyboard None) evs) IRQ_CENTRAL_DISCONNECT data))
              = payload (some_keyboard None) \<and>
            snd (irq (kb_run (some_keyboard None) evs) IRQ_CENTRAL_DISCONNECT data)
              = [GapAdvertise 500000 (payload (some_keyboard None))]"
    by (rule conjunct2[THEN conjunct2])
  from a have a1: "conn_handle (fst (irq (kb_run (some_keyboard None)
                            [Irq 1 (64, 0, [1, 2, 3, 4, 5, 6]), SendKey 0x2C True True])
                       IRQ_CENTRAL_DISCONNECT (64, 0, [1, 2, 3, 4, 5, 6]))) = None"
    by blast
  from a have a2: "snd (irq (kb_run (some_keyboard None)
               [Irq 1 (64, 0, [1, 2, 3, 4, 5, 6]), SendKey 0x2C True True])
          IRQ_CENTRAL_DISCONNECT (64, 0, [1, 2, 3, 4, 5, 6]))
     = [GapAdvertise 500000 (payload (some_keyboard None))]"
    by blast
  show ?thesis by (intro conjI h c a1 a2)
qed

subsection \<open>Sending a key\<close>

text \<open>With a stored handle other than 0, a key code that fits a byte, and a radio stack
  that accepts both notifications, \<open>send_key\<close> does what is expected of it.\<close>

lemma send_key_connected:
  assumes "conn_handle kb = Some h" and "h \<noteq> 0" and "0 \<le> key_code" and "key_code < 256"
  shows "send_key kb key_code True True =
           (Inr (), [GattsNotify h (h_rep kb) [0, 0, word_of_int key_code, 0, 0, 0, 0, 0],
                     SleepMs KEY_HOLD_TIME_MS,
                     GattsNotify h (h_rep kb) [0, 0, 0, 0, 0, 0, 0, 0]])
         \<and> uint (word_of_int key_code :: byte) = key_code"
  using assms by (simp add: send_key_def gatts_notify_def pack_8B_def uint_word_of_int)

text \<open>
  C9. \<open>send_key\<close> tests the truth value of the stored handle, so it returns without any
  notification not only when the handle is \<open>None\<close> but also when it is 0. A connect event
  that delivers the handle 0 stores it (the handle is no longer \<open>None\<close>: a host is
  connected), and every \<open>send_key\<close> call after it is dropped.
\<close>

theorem falsy_handle_drops_key:
  "(conn_handle kb = None \<or> conn_handle kb = Some 0 \<longrightarrow>
      send_key kb key_code ok1 ok2 = (Inr (), [])) \<and>
   conn_handle (fst (irq kb IRQ_CENTRAL_CONNECT (0, addr_type, addr))) = Some 0 \<and>
   send_key (fst (irq kb IRQ_CENTRAL_CONNECT (0, addr_type, addr))) key_code ok1 ok2 = (Inr (), [])"
proof (intro conjI impI)
  assume "conn_handle kb = None \<or> conn_handle kb = Some 0"
  then show "send_key kb key_code ok1 ok2 = (Inr (), [])"
    by (auto simp: send_key_def)
next
  show stored: "conn_handle (fst (irq kb IRQ_CENTRAL_CONNECT (0, addr_type, addr))) = Some 0"
    by (simp add: irq_def)
  then show "send_key (fst (irq kb IRQ_CENTRAL_CONNECT (0, addr_type, addr))) key_code ok1 ok2
               = (Inr (), [])"
    by (simp add: send_key_def)
qed

theorem falsy_handle_drops_key_witness:
  "(conn_handle (some_keyboard (Some 0)) = None \<or> conn_handle (some_keyboard (Some 0)) = Some 0) \<and>
   send_key (some_keyboard (Some 0)) KEY_SPACE True True = (Inr (), [])"
proof -
  have h: "conn_handle (some_keyboard (Some 0)) = None \<or> conn_handle (some_keyboard (Some 0)) = Some 0"
    by (simp add: some_keyboard_def)
  from falsy_handle_drops_key[of "some_keyboard (Some 0)" KEY_SPACE True True] h
  have c: "send_key (some_keyboard (Some 0)) KEY_SPACE True True = (Inr (), [])"
    by blast
  show ?thesis by (intro conjI h c)
qed

text \<open>
  C1. With a connection active, \<open>send_key(code)\<close> should send two notifications on the
  Input Report characteristic, the key-down frame and, after the hold time, the all-zero
  frame. The program does so for the handle 64, and sends nothing at all when the connect
  event delivered the handle 0.
\<close>

theorem connected_with_handle_zero_sends_nothing:
  "fst (irq (some_keyboard None) IRQ_CENTRAL_CONNECT (0, 0, [1, 2, 3, 4, 5, 6]))
     = some_keyboard (Some 0) \<and>
   send_key (some_keyboard (Some 0)) KEY_SPACE True True = (Inr (), []) \<and>
   send_key (some_keyboard (Some 64)) KEY_SPACE True True
     = (Inr (), [GattsNotify 64 20 [0, 0, 0x2C, 0, 0, 0, 0, 0], SleepMs 75,
                 GattsNotify 64 20 [0, 0, 0, 0, 0, 0, 0, 0]])"
  by (simp add: irq_def IRQ_CENTRAL_CONNECT_def some_keyboard_def send_key_def gatts_notify_def
      pack_8B_def KEY_SPACE_def KEY_HOLD_TIME_MS_def)

end
